theory Spec2Isabelle
  imports Main "HOL-Library.Sublist"
begin

section \<open>Strings and the POSIX \<open>path\<close> module\<close>

text \<open>
  The program is a Node.js service (\<open>src/index.js\<close>). Strings are modelled as
  \<open>string\<close> (lists of bytes); every operation the program performs on them
  looks only at the ASCII characters \<open>/\<close>, \<open>.\<close>, \<open>-\<close>, \<open>$\<close> and at ASCII letters.
  The functions of this section model the POSIX variant of Node's \<open>path\<close>
  module and the string methods the program calls.
\<close>

type_synonym path = string

text \<open>\<open>String.prototype.split("/")\<close>: the result is never empty.\<close>

fun split_sep :: "string \<Rightarrow> string list" where
  "split_sep [] = [[]]"
| "split_sep (c # cs) =
     (if c = CHR ''/'' then [] # split_sep cs
      else (case split_sep cs of [] \<Rightarrow> [[c]] | s # ss \<Rightarrow> (c # s) # ss))"

text \<open>\<open>Array.prototype.join("/")\<close>.\<close>

fun join_sep :: "string list \<Rightarrow> string" where
  "join_sep [] = []"
| "join_sep [s] = s"
| "join_sep (s # t # ts) = s @ CHR ''/'' # join_sep (t # ts)"

text \<open>
  Node's \<open>normalizeString\<close>, segment by segment: empty segments and \<open>.\<close> are
  dropped, \<open>..\<close> removes the segment preceding it (or is kept when it cannot and
  the path is relative).
\<close>

definition normalize_segment :: "bool \<Rightarrow> string list \<Rightarrow> string \<Rightarrow> string list" where
  "normalize_segment allowAboveRoot res seg =
     (if seg = [] \<or> seg = ''.'' then res
      else if seg = ''..'' then
        (if res \<noteq> [] \<and> last res \<noteq> ''..'' then butlast res
         else if allowAboveRoot then res @ [''..''] else res)
      else res @ [seg])"

definition normalizeSegments :: "bool \<Rightarrow> string \<Rightarrow> string list" where
  "normalizeSegments allowAboveRoot p = foldl (normalize_segment allowAboveRoot) [] (split_sep p)"

definition normalizeString :: "bool \<Rightarrow> string \<Rightarrow> string" where
  "normalizeString allowAboveRoot p = join_sep (normalizeSegments allowAboveRoot p)"

definition isAbsolute :: "path \<Rightarrow> bool" where
  "isAbsolute p = (case p of [] \<Rightarrow> False | c # _ \<Rightarrow> c = CHR ''/'')"

text \<open>
  \<open>path.resolve(p)\<close> with one argument; \<open>cwd\<close> is \<open>process.cwd()\<close>, an absolute
  path, used when \<open>p\<close> is relative or empty.
\<close>

definition resolve :: "path \<Rightarrow> path \<Rightarrow> path" where
  "resolve cwd p =
     CHR ''/'' # normalizeString False (if isAbsolute p then p else cwd @ ''/'' @ p)"

text \<open>
  \<open>path.dirname\<close>: trailing separators and the last component are skipped from
  the right, never looking at the first character.
\<close>

definition dirname :: "path \<Rightarrow> path" where
  "dirname p =
     (case p of
        [] \<Rightarrow> ''.''
      | c # t \<Rightarrow>
          (case dropWhile (\<lambda>x. x \<noteq> CHR ''/'') (dropWhile (\<lambda>x. x = CHR ''/'') (rev t)) of
             [] \<Rightarrow> (if c = CHR ''/'' then ''/'' else ''.'')
           | _ # r \<Rightarrow> (if c = CHR ''/'' \<and> r = [] then ''//'' else c # rev r)))"

text \<open>\<open>path.normalize\<close> and \<open>path.join\<close> with two arguments.\<close>

definition normalize :: "path \<Rightarrow> path" where
  "normalize p =
     (if p = [] then ''.''
      else
        let isAbs = isAbsolute p;
            trailingSeparator = (last p = CHR ''/'');
            q = normalizeString (\<not> isAbs) p
        in if q = [] then (if isAbs then ''/'' else if trailingSeparator then ''./'' else ''.'')
           else (let q' = (if trailingSeparator then q @ ''/'' else q)
                 in if isAbs then CHR ''/'' # q' else q'))"

definition path_join :: "path \<Rightarrow> path \<Rightarrow> path" where
  "path_join a b =
     (let joined = (if a = [] then b else if b = [] then a else a @ ''/'' @ b)
      in if joined = [] then ''.'' else normalize joined)"

text \<open>
  \<open>path.extname\<close>: the extension of the last component (trailing separators
  ignored), from its last dot; empty when there is no dot, when the dot is the
  component's first character, and for the component \<open>..\<close>.
\<close>

definition last_component :: "path \<Rightarrow> string" where
  "last_component p =
     rev (takeWhile (\<lambda>x. x \<noteq> CHR ''/'') (dropWhile (\<lambda>x. x = CHR ''/'') (rev p)))"

definition extname :: "path \<Rightarrow> string" where
  "extname p =
     (let comp = last_component p in
      case dropWhile (\<lambda>x. x \<noteq> CHR ''.'') (rev comp) of
        [] \<Rightarrow> []
      | _ # front \<Rightarrow>
          (if front = [] \<or> comp = ''..'' then []
           else CHR ''.'' # rev (takeWhile (\<lambda>x. x \<noteq> CHR ''.'') (rev comp))))"

text \<open>
  \<open>String.prototype.toLowerCase\<close> on the ASCII letters. (No character outside
  ASCII lower-cases to a string of the allowlist's letters, so membership in
  the allowlist is not affected by the restriction.)
\<close>

definition lower_char :: "char \<Rightarrow> char" where
  "lower_char c =
     (case map_of (zip ''ABCDEFGHIJKLMNOPQRSTUVWXYZ'' ''abcdefghijklmnopqrstuvwxyz'') c of
        None \<Rightarrow> c | Some l \<Rightarrow> l)"

definition toLowerCase :: "string \<Rightarrow> string" where
  "toLowerCase s = map lower_char s"

text \<open>\<open>String.prototype.startsWith\<close>.\<close>

definition startsWith :: "string \<Rightarrow> string \<Rightarrow> bool" where
  "startsWith s p = (take (length p) s = p)"

text \<open>
  \<open>String.prototype.replace(pattern, replacement)\<close> with a string pattern: the
  first occurrence of the pattern is replaced, and the replacement is a
  template in which \<open>$$\<close>, \<open>$&\<close>, \<open>$`\<close> and \<open>$'\<close> are expanded
  (\<open>GetSubstitution\<close>; with a string pattern there are no captures, so every
  other \<open>$\<close> stands for itself).
\<close>

fun getSubstitution :: "string \<Rightarrow> string \<Rightarrow> string \<Rightarrow> string \<Rightarrow> string" where
  "getSubstitution matched front after [] = []"
| "getSubstitution matched front after [c] = [c]"
| "getSubstitution matched front after (c # d # r) =
     (if c = CHR ''$'' \<and> d = CHR ''$'' then CHR ''$'' # getSubstitution matched front after r
      else if c = CHR ''$'' \<and> d = CHR ''&'' then matched @ getSubstitution matched front after r
      else if c = CHR ''$'' \<and> d = CHR 0x60 then front @ getSubstitution matched front after r
      else if c = CHR ''$'' \<and> d = CHR 0x27 then after @ getSubstitution matched front after r
      else c # getSubstitution matched front after (d # r))"

fun replace_from :: "string \<Rightarrow> string \<Rightarrow> string \<Rightarrow> string \<Rightarrow> string" where
  "replace_from front s pat repl =
     (if startsWith s pat
      then front @ getSubstitution pat front (drop (length pat) s) repl @ drop (length pat) s
      else (case s of [] \<Rightarrow> front | c # cs \<Rightarrow> replace_from (front @ [c]) cs pat repl))"

definition replace :: "string \<Rightarrow> string \<Rightarrow> string \<Rightarrow> string" where
  "replace s pat repl = replace_from [] s pat repl"

section \<open>The program\<close>

subsection \<open>\<open>EXTRA_ALLOWLIST\<close> and \<open>isExtraFile\<close>\<close>

definition EXTRA_ALLOWLIST :: "string list" where
  "EXTRA_ALLOWLIST =
     [''.cue'', ''.log'', ''.png'', ''.jpg'', ''.jpeg'', ''.txt'', ''.m3u'', ''.m3u8'',
      ''.yml'', ''.yaml'']"

definition isExtraFile :: "string \<Rightarrow> bool" where
  "isExtraFile filename = (toLowerCase (extname filename) \<in> set EXTRA_ALLOWLIST)"

subsection \<open>\<open>applyPathMappings\<close>\<close>

record pathMapping =
  "from" :: string
  to :: string

text \<open>
  \<open>mappings\<close> is \<open>None\<close> when the configuration has no array under
  \<open>pathMappings\<close>.
\<close>

fun applyMappingsLoop :: "path \<Rightarrow> pathMapping list \<Rightarrow> path" where
  "applyMappingsLoop inputPath [] = inputPath"
| "applyMappingsLoop inputPath (m # ms) =
     (if startsWith inputPath (from m) then replace inputPath (from m) (to m)
      else applyMappingsLoop inputPath ms)"

definition applyPathMappings :: "path \<Rightarrow> pathMapping list option \<Rightarrow> path" where
  "applyPathMappings inputPath mappings =
     (case mappings of None \<Rightarrow> inputPath | Some ms \<Rightarrow> applyMappingsLoop inputPath ms)"

subsection \<open>\<open>findCommonParentDir\<close>\<close>

text \<open>
  The exceptions of the program: the \<open>Error\<close>s it throws itself
  (\<open>NoPathsProvided\<close>, \<open>NoCommonRootTracks\<close>, \<open>NoCommonRootTorrent\<close>,
  \<open>LoginFailed\<close>, \<open>TorrentNotFound\<close>, \<open>NoFilesListed\<close>), the \<open>TypeError\<close>
  of \<open>cookie.join\<close> on a missing cookie, and the failures of an HTTP request,
  of \<open>fs.readdir\<close> and of \<open>fs.link\<close>.
\<close>

datatype error =
    NoPathsProvided
  | NoCommonRootTracks
  | NoCommonRootTorrent
  | RequestFailed
  | LoginFailed
  | NoCookie
  | TorrentNotFound
  | NoFilesListed
  | ReaddirFailed
  | LinkFailed

text \<open>The \<open>for\<close> loop collecting the common leading components.\<close>

function commonLoop :: "string list list \<Rightarrow> nat \<Rightarrow> nat \<Rightarrow> string list \<Rightarrow> string list" where
  "commonLoop splitDirs minLen i commonParts =
     (if i < minLen then
        (let part = hd splitDirs ! i in
         if list_all (\<lambda>sp. sp ! i = part) splitDirs
         then commonLoop splitDirs minLen (i + 1) (commonParts @ [part])
         else commonParts)
      else commonParts)"
  by pat_completeness auto
termination
  by (relation "measure (\<lambda>(splitDirs, minLen, i, commonParts). minLen - i)") auto

declare commonLoop.simps [simp del]

text \<open>
  The result is \<open>Inl\<close> for the thrown error, \<open>Inr None\<close> for \<open>null\<close> and
  \<open>Inr (Some s)\<close> for a string. The loop reads \<open>sp[i]\<close> only for
  \<open>i < minLen\<close>, inside every list.
\<close>

definition findCommonParentDir :: "path \<Rightarrow> path list \<Rightarrow> error + path option" where
  "findCommonParentDir cwd paths =
     (if paths = [] then Inl NoPathsProvided
      else
        let dirs = map (\<lambda>p. dirname (resolve cwd p)) paths;
            splitDirs = map split_sep dirs;
            minLen = Min (set (map length splitDirs));
            commonParts = commonLoop splitDirs minLen 0 []
        in if commonParts = [] then Inr None else Inr (Some (join_sep commonParts)))"

text \<open>JavaScript truthiness of the result, as tested by \<open>!albumPath\<close>.\<close>

definition falsy :: "path option \<Rightarrow> bool" where
  "falsy r = (case r of None \<Rightarrow> True | Some s \<Rightarrow> s = [])"

subsection \<open>The file system\<close>

text \<open>
  A directory is the list of its entries in the order \<open>readdir\<close> enumerates
  them. A regular file is identified by its inode number, so that a hard link
  is an entry with the inode of its source; \<open>Other\<close> is any entry that is
  neither a regular file nor a directory (a symbolic link, a socket): for it
  both \<open>isFile()\<close> and \<open>isDirectory()\<close> are false.
\<close>

datatype node = File nat | Dir "(string \<times> node) list" | Other

type_synonym entries = "(string \<times> node) list"

definition readdir :: "entries \<Rightarrow> string list" where
  "readdir d = map fst d"

definition lstat :: "entries \<Rightarrow> string \<Rightarrow> node option" where
  "lstat d name = map_of d name"

fun isFile :: "node \<Rightarrow> bool" where
  "isFile (File _) = True"
| "isFile _ = False"

fun isDirectory :: "node \<Rightarrow> bool" where
  "isDirectory (Dir _) = True"
| "isDirectory _ = False"

text \<open>
  \<open>fs.unlink\<close> fails (\<open>None\<close>) on a name that does not exist, on a
  directory, and when the system refuses to remove the entry (missing
  permission, a sticky directory, a busy file): \<open>removable\<close> tells for which
  entries it does not refuse. Otherwise the entry is gone.
\<close>

definition unlink :: "(string \<Rightarrow> node \<Rightarrow> bool) \<Rightarrow> string \<Rightarrow> entries \<Rightarrow> entries option" where
  "unlink removable name d =
     (case lstat d name of
        None \<Rightarrow> None
      | Some st \<Rightarrow>
          (if isDirectory st \<or> \<not> removable name st then None
           else Some (filter (\<lambda>(n, _). n \<noteq> name) d)))"

text \<open>
  \<open>fs.link\<close> fails when the new name is taken, and when the system refuses a
  hard link to the source file (another device, missing permission):
  \<open>linkable\<close> tells for which inodes it does not refuse.
\<close>

definition link :: "(nat \<Rightarrow> bool) \<Rightarrow> nat \<Rightarrow> string \<Rightarrow> entries \<Rightarrow> entries option" where
  "link linkable ino name d =
     (if lstat d name \<noteq> None \<or> \<not> linkable ino then None
      else Some (d @ [(name, File ino)]))"

subsection \<open>\<open>removeExistingExtras\<close>\<close>

text \<open>
  The loop over the names \<open>readdir\<close> returned; \<open>try { ... } catch {}\<close> turns a
  failing \<open>lstat\<close> or \<open>unlink\<close> into a step that changes nothing.
\<close>

fun removeLoop :: "(string \<Rightarrow> node \<Rightarrow> bool) \<Rightarrow> string list \<Rightarrow> entries \<Rightarrow> entries" where
  "removeLoop removable [] d = d"
| "removeLoop removable (file # files) d =
     removeLoop removable files
       (case lstat d file of
          None \<Rightarrow> d
        | Some st \<Rightarrow>
            (if isFile st \<and> isExtraFile file
             then (case unlink removable file d of None \<Rightarrow> d | Some d' \<Rightarrow> d')
             else d))"

definition removeExistingExtras :: "(string \<Rightarrow> node \<Rightarrow> bool) \<Rightarrow> entries \<Rightarrow> entries" where
  "removeExistingExtras removable album = removeLoop removable (readdir album) album"

subsection \<open>\<open>linkExtrasRecursive\<close>\<close>

text \<open>
  The walk over the entries of the source directory, with the album directory
  as the state; the album directory is assumed not to lie inside the source
  tree, and every directory of the source tree to be readable. The result
  carries the error that ended the walk, if any, and the album directory as
  the walk left it. \<open>fs.unlink(dest)\<close> is inside \<open>try { } catch {}\<close>,
  \<open>fs.link\<close> is not.
\<close>

definition destName :: "string \<Rightarrow> string \<Rightarrow> string" where
  "destName base name = (if base \<noteq> [] then base @ ''-'' @ name else name)"

function linkExtrasRecursive ::
  "(nat \<Rightarrow> bool) \<Rightarrow> (string \<Rightarrow> node \<Rightarrow> bool) \<Rightarrow> entries \<Rightarrow> entries \<Rightarrow> string
     \<Rightarrow> error option \<times> entries" where
  "linkExtrasRecursive linkable removable [] album base = (None, album)"
| "linkExtrasRecursive linkable removable ((name, Dir sub) # rest) album base =
     (case linkExtrasRecursive linkable removable sub album (destName base name) of
        (Some e, album') \<Rightarrow> (Some e, album')
      | (None, album') \<Rightarrow> linkExtrasRecursive linkable removable rest album' base)"
| "linkExtrasRecursive linkable removable ((name, File ino) # rest) album base =
     (if isExtraFile name then
        (let destFile = destName base name;
             album1 = (case unlink removable destFile album of None \<Rightarrow> album | Some a \<Rightarrow> a)
         in case link linkable ino destFile album1 of
              None \<Rightarrow> (Some LinkFailed, album1)
            | Some album2 \<Rightarrow> linkExtrasRecursive linkable removable rest album2 base)
      else linkExtrasRecursive linkable removable rest album base)"
| "linkExtrasRecursive linkable removable ((name, Other) # rest) album base =
     linkExtrasRecursive linkable removable rest album base"
  by pat_completeness auto
termination
  by (relation
        "measure (\<lambda>(linkable, removable, es, album, base). size_list (size_prod (\<lambda>_. 0) size) es)")
     auto

subsection \<open>The torrent client: \<open>qbtLogin\<close> and \<open>getTorrentFolder\<close>\<close>

text \<open>
  Of the configuration only \<open>pathMappings\<close> matters here. The \<open>world\<close> holds
  what the program reads from outside: the working directory, the replies of
  qBittorrent (\<open>None\<close> when the HTTP request itself fails and \<open>axios\<close>
  throws), which inodes can be hard-linked and which entries can be removed.
  \<open>loginReply\<close> is the body of
  the reply and its \<open>set-cookie\<close> header, \<open>infoReply\<close> the \<open>save_path\<close> of
  every torrent returned for a hash, \<open>filesReply\<close> the \<open>name\<close> of every file
  of the torrent.
\<close>

record config =
  pathMappings :: "pathMapping list option"

record world =
  cwd :: path
  loginReply :: "(string \<times> string list option) option"
  infoReply :: "string \<Rightarrow> string list option"
  filesReply :: "string \<Rightarrow> string list option"
  canLink :: "nat \<Rightarrow> bool"
  canUnlink :: "string \<Rightarrow> node \<Rightarrow> bool"

definition qbtLogin :: "world \<Rightarrow> error + string list option" where
  "qbtLogin w =
     (case loginReply w of
        None \<Rightarrow> Inl RequestFailed
      | Some (data, setCookie) \<Rightarrow>
          (if data \<noteq> ''Ok.'' then Inl LoginFailed else Inr setCookie))"

text \<open>
  \<open>cookie.join("; ")\<close> throws a \<open>TypeError\<close> when the login reply had no
  \<open>set-cookie\<close> header (\<open>NoCookie\<close>).
\<close>

definition getTorrentFolder :: "world \<Rightarrow> config \<Rightarrow> string \<Rightarrow> string list option \<Rightarrow> error + path" where
  "getTorrentFolder w cfg downloadId cookie =
     (case cookie of
        None \<Rightarrow> Inl NoCookie
      | Some _ \<Rightarrow>
     (case infoReply w downloadId of
        None \<Rightarrow> Inl RequestFailed
      | Some info \<Rightarrow>
     (case info of
        [] \<Rightarrow> Inl TorrentNotFound
      | save_path # _ \<Rightarrow>
     (let savePath = applyPathMappings save_path (pathMappings cfg) in
      case filesReply w downloadId of
        None \<Rightarrow> Inl RequestFailed
      | Some files \<Rightarrow>
          (if files = [] then Inl NoFilesListed
           else
             (case findCommonParentDir (cwd w) (map (path_join savePath) files) of
                Inl e \<Rightarrow> Inl e
              | Inr commonPrefix \<Rightarrow>
                  (if falsy commonPrefix then Inl NoCommonRootTorrent
                   else (case commonPrefix of
                           None \<Rightarrow> Inl NoCommonRootTorrent
                         | Some s \<Rightarrow> Inr s))))))))"

subsection \<open>The \<open>/webhook\<close> handler\<close>

text \<open>
  The directories of the file system by absolute path; \<open>fs.readdir\<close> fails on
  a path that is not a directory.
\<close>

type_synonym fs = "path \<Rightarrow> entries option"

text \<open>
  The notification: \<open>trackFiles\<close> is \<open>None\<close> when the field is missing or
  \<open>null\<close>, otherwise the \<open>path\<close> of every track; likewise \<open>downloadId\<close> and
  \<open>eventType\<close>.
\<close>

record body =
  eventType :: "string option"
  trackFiles :: "path list option"
  downloadId :: "string option"

text \<open>
  The \<open>try\<close> block of the handler: the error is the one the \<open>catch\<close> clause
  receives. \<open>removeExistingExtras\<close> and \<open>linkExtrasRecursive\<close> start with
  \<open>fs.readdir\<close> of their directory, outside any \<open>try\<close>. The source tree is
  the one found under \<open>originalDir\<close> when the walk starts: this is what the
  code reads as long as the album directory is neither the source directory
  nor inside it (\<open>lies_in\<close> below), and the statements about the walk of
  the handler are made for that case only.
\<close>

definition processImport :: "world \<Rightarrow> config \<Rightarrow> path list \<Rightarrow> string \<Rightarrow> fs \<Rightarrow> error option \<times> fs" where
  "processImport w cfg paths dlId files =
     (case findCommonParentDir (cwd w) paths of
        Inl e \<Rightarrow> (Some e, files)
      | Inr r \<Rightarrow>
     (if falsy r then (Some NoCommonRootTracks, files)
      else
     (case r of
        None \<Rightarrow> (Some NoCommonRootTracks, files)
      | Some albumPath \<Rightarrow>
     (case files albumPath of
        None \<Rightarrow> (Some ReaddirFailed, files)
      | Some album \<Rightarrow>
     (let album1 = removeExistingExtras (canUnlink w) album;
          files1 = files(albumPath \<mapsto> album1)
      in
      case qbtLogin w of
        Inl e \<Rightarrow> (Some e, files1)
      | Inr cookie \<Rightarrow>
     (case getTorrentFolder w cfg dlId cookie of
        Inl e \<Rightarrow> (Some e, files1)
      | Inr originalDir \<Rightarrow>
     (case files1 originalDir of
        None \<Rightarrow> (Some ReaddirFailed, files1)
      | Some source \<Rightarrow>
          (case linkExtrasRecursive (canLink w) (canUnlink w) source album1 [] of
             (e, album2) \<Rightarrow> (e, files1(albumPath \<mapsto> album2))))))))))"

text \<open>
  The handler: the HTTP status sent and the file system it leaves.
  \<open>!body.trackFiles\<close> is true for a missing field and false for every array,
  the empty one too; \<open>!body.downloadId\<close> is true for a missing field and for
  the empty string.
\<close>

definition webhook :: "world \<Rightarrow> config \<Rightarrow> body \<Rightarrow> fs \<Rightarrow> nat \<times> fs" where
  "webhook w cfg b files =
     (if eventType b = Some ''Test'' then (200, files)
      else
        (case trackFiles b of
           None \<Rightarrow> (400, files)
         | Some paths \<Rightarrow>
             (case downloadId b of
                None \<Rightarrow> (400, files)
              | Some dlId \<Rightarrow>
                  (if dlId = [] then (400, files)
                   else (200, snd (processImport w cfg paths dlId files))))))"

section \<open>Definitions used in the statements and proofs\<close>

text \<open>
  An entry that \<open>removeExistingExtras\<close> deletes: a regular file with an
  allowlisted extension that the system lets it remove.
\<close>

definition stale :: "(string \<Rightarrow> node \<Rightarrow> bool) \<Rightarrow> string \<times> node \<Rightarrow> bool" where
  "stale cu x = (isFile (snd x) \<and> isExtraFile (fst x) \<and> cu (fst x) (snd x))"

text \<open>
  The segments of the path \<open>path.resolve\<close> returns for \<open>p\<close> in the working
  directory \<open>wd\<close>, the segments of the directory that contains \<open>p\<close>, and the
  path of the directory with given segments (the root for no segments).
\<close>

definition path_segments :: "path \<Rightarrow> path \<Rightarrow> string list" where
  "path_segments wd p = normalizeSegments False (if isAbsolute p then p else wd @ ''/'' @ p)"

definition dir_segments :: "path \<Rightarrow> path \<Rightarrow> string list" where
  "dir_segments wd p = butlast (path_segments wd p)"

definition dir_path :: "string list \<Rightarrow> path" where
  "dir_path ds = CHR ''/'' # join_sep ds"

text \<open>Segments as a normalized path has them: not empty, without separator.\<close>

definition proper_segments :: "string list \<Rightarrow> bool" where
  "proper_segments segs = list_all (\<lambda>s. s \<noteq> [] \<and> CHR ''/'' \<notin> set s) segs"


text \<open>
  The handler's resolution of the source directory: \<open>qbtLogin\<close>, then
  \<open>getTorrentFolder\<close>.
\<close>

definition resolveSource :: "world \<Rightarrow> config \<Rightarrow> string \<Rightarrow> error + path" where
  "resolveSource w cfg dlId =
     (case qbtLogin w of Inl e \<Rightarrow> Inl e | Inr cookie \<Rightarrow> getTorrentFolder w cfg dlId cookie)"







text \<open>
  For normalized absolute paths: \<open>p\<close> is the directory \<open>d\<close> or lies below it.
\<close>

definition lies_in :: "path \<Rightarrow> path \<Rightarrow> bool" where
  "lies_in p d = (p = d \<or> d = ''/'' \<or> prefix (d @ ''/'') p)"

text \<open>
  Example inputs: a world in which qBittorrent knows the torrent \<open>abc\<close> only,
  where every link and every removal is allowed, a configuration with one
  path mapping, and a file system with an album
  directory, the download directory and a root directory.
\<close>

definition exampleWorld :: world where
  "exampleWorld =
     \<lparr>cwd = ''/'',
      loginReply = Some (''Ok.'', Some [''SID=1'']),
      infoReply = (\<lambda>h. if h = ''abc'' then Some [''/downloads''] else Some []),
      filesReply = (\<lambda>h. if h = ''abc'' then Some [''Album/01.flac'', ''Album/cover.jpg''] else Some []),
      canLink = (\<lambda>_. True),
      canUnlink = (\<lambda>_ _. True)\<rparr>"

definition exampleConfig :: config where
  "exampleConfig = \<lparr>pathMappings = Some [\<lparr>from = ''/downloads'', to = ''/data''\<rparr>]\<rparr>"

definition exampleFiles :: fs where
  "exampleFiles =
     [''/music/Artist/Album'' \<mapsto> [(''01.flac'', File 10), (''old.log'', File 11)],
      ''/data/Album'' \<mapsto> [(''01.flac'', File 1), (''cover.jpg'', File 2)],
      ''/'' \<mapsto> [(''x.flac'', File 20), (''notes.txt'', File 21)]]"

section \<open>Splitting and joining paths\<close>

lemma split_sep_nonempty: "split_sep s \<noteq> []"
  by (induction s) (auto split: list.splits)

lemma join_split: "join_sep (split_sep s) = s"
proof (induction s)
  case Nil
  show ?case by simp
next
  case (Cons c cs)
  show ?case
  proof (cases "c = CHR ''/''")
    case True
    obtain x xs where "split_sep cs = x # xs" using split_sep_nonempty[of cs] by (cases "split_sep cs") auto
    with True Cons show ?thesis by simp
  next
    case False
    obtain x xs where x: "split_sep cs = x # xs" using split_sep_nonempty[of cs] by (cases "split_sep cs") auto
    with False Cons show ?thesis by (cases xs) auto
  qed
qed

lemma split_no_sep: "seg \<in> set (split_sep s) \<Longrightarrow> CHR ''/'' \<notin> set seg"
proof (induction s arbitrary: seg)
  case Nil
  then show ?case by simp
next
  case (Cons c cs)
  obtain x xs where x: "split_sep cs = x # xs" using split_sep_nonempty[of cs] by (cases "split_sep cs") auto
  have ih: "\<And>y. y \<in> set (x # xs) \<Longrightarrow> CHR ''/'' \<notin> set y" using Cons.IH x by simp
  show ?case
  proof (cases "c = CHR ''/''")
    case True
    with Cons.prems x ih show ?thesis by auto
  next
    case False
    with Cons.prems x ih show ?thesis by auto
  qed
qed

lemma split_sep_plain: "CHR ''/'' \<notin> set s \<Longrightarrow> split_sep s = [s]"
  by (induction s) auto

lemma split_sep_append: "CHR ''/'' \<notin> set s \<Longrightarrow> split_sep (s @ CHR ''/'' # r) = s # split_sep r"
  by (induction s) auto

lemma split_join:
  "segs \<noteq> [] \<Longrightarrow> \<forall>s\<in>set segs. CHR ''/'' \<notin> set s \<Longrightarrow> split_sep (join_sep segs) = segs"
proof (induction segs rule: join_sep.induct)
  case 1
  then show ?case by simp
next
  case (2 s)
  then show ?case by (simp add: split_sep_plain)
next
  case (3 s t ts)
  then show ?case by (simp add: split_sep_append)
qed

lemma join_sep_snoc: "xs \<noteq> [] \<Longrightarrow> join_sep (xs @ [l]) = join_sep xs @ CHR ''/'' # l"
  by (induction xs rule: join_sep.induct) auto

lemma join_sep_eq_Nil: "proper_segments segs \<Longrightarrow> (join_sep segs = []) = (segs = [])"
  by (induction segs rule: join_sep.induct) (auto simp: proper_segments_def)

lemma proper_normalize_segment:
  "proper_segments res \<Longrightarrow> CHR ''/'' \<notin> set seg \<Longrightarrow> proper_segments (normalize_segment False res seg)"
  by (auto simp: proper_segments_def normalize_segment_def list_all_iff dest: in_set_butlastD)

lemma proper_foldl:
  "proper_segments res \<Longrightarrow> \<forall>s\<in>set segs. CHR ''/'' \<notin> set s \<Longrightarrow>
     proper_segments (foldl (normalize_segment False) res segs)"
  by (induction segs arbitrary: res) (auto simp: proper_normalize_segment)

lemma proper_path_segments: "proper_segments (path_segments wd p)"
  unfolding path_segments_def normalizeSegments_def
  by (rule proper_foldl) (auto simp: proper_segments_def dest: split_no_sep)

lemma proper_dir_segments: "proper_segments (dir_segments wd p)"
  using proper_path_segments[of wd p]
  by (auto simp: dir_segments_def proper_segments_def list_all_iff dest: in_set_butlastD)

lemma resolve_dir_path: "resolve wd p = dir_path (path_segments wd p)"
  by (simp add: resolve_def dir_path_def path_segments_def normalizeString_def)

lemma dirname_dir_path:
  assumes "proper_segments segs"
  shows "dirname (dir_path segs) = dir_path (butlast segs)"
proof (cases segs rule: rev_cases)
  case Nil
  then show ?thesis by (simp add: dirname_def dir_path_def)
next
  case (snoc butl l)
  have l: "l \<noteq> []" "CHR ''/'' \<notin> set l" and pb: "proper_segments butl"
    using assms snoc by (auto simp: proper_segments_def)
  have dl: "dropWhile (\<lambda>x. x = CHR ''/'') (rev l @ ys) = rev l @ ys" for ys
    using l by (cases l rule: rev_cases) auto
  have dn: "dropWhile (\<lambda>x. x \<noteq> CHR ''/'') (rev l @ ys) = dropWhile (\<lambda>x. x \<noteq> CHR ''/'') ys" for ys
    using l(2) by (simp add: dropWhile_append)
  show ?thesis
  proof (cases "butl = []")
    case True
    have d0: "dropWhile (\<lambda>x. x \<noteq> CHR ''/'') (dropWhile (\<lambda>x. x = CHR ''/'') (rev l)) = []"
      using dl[of "[]"] dn[of "[]"] by simp
    show ?thesis using snoc True by (simp add: dirname_def dir_path_def d0)
  next
    case False
    then have j: "join_sep (butl @ [l]) = join_sep butl @ CHR ''/'' # l" by (rule join_sep_snoc)
    have ne: "join_sep butl \<noteq> []" using False pb by (simp add: join_sep_eq_Nil)
    have d1: "dropWhile (\<lambda>x. x \<noteq> CHR ''/'')
                 (dropWhile (\<lambda>x. x = CHR ''/'') (rev l @ CHR ''/'' # rev (join_sep butl)))
               = CHR ''/'' # rev (join_sep butl)"
      using dl[of "CHR ''/'' # rev (join_sep butl)"] dn[of "CHR ''/'' # rev (join_sep butl)"]
      by simp
    show ?thesis
      using snoc ne by (simp add: dirname_def dir_path_def j d1)
  qed
qed

lemma dirname_resolve: "dirname (resolve wd p) = dir_path (dir_segments wd p)"
  by (simp add: resolve_dir_path dirname_dir_path proper_path_segments dir_segments_def)

lemma split_dir_path:
  "proper_segments ds \<Longrightarrow> split_sep (dir_path ds) = (if ds = [] then [[], []] else [] # ds)"
  by (auto simp: dir_path_def split_join proper_segments_def list_all_iff)

section \<open>The loop of \<open>findCommonParentDir\<close>\<close>

text \<open>
  The loop returns the longest list that is a prefix of every list of
  components.
\<close>

lemma commonLoop_result:
  assumes "\<forall>sp\<in>set splitDirs. minLen \<le> length sp" "i \<le> minLen"
    "\<forall>sp\<in>set splitDirs. take i sp = acc"
  shows "\<exists>k. i \<le> k \<and> k \<le> minLen \<and>
           (\<forall>sp\<in>set splitDirs. take k sp = commonLoop splitDirs minLen i acc) \<and>
           (k < minLen \<longrightarrow> \<not> list_all (\<lambda>sp. sp ! k = hd splitDirs ! k) splitDirs)"
  using assms
proof (induction splitDirs minLen i acc rule: commonLoop.induct)
  case (1 splitDirs minLen i commonParts)
  show ?case
  proof (cases "i < minLen")
    case False
    then have eq: "commonLoop splitDirs minLen i commonParts = commonParts"
      by (subst commonLoop.simps) simp
    from False "1.prems" have "i = minLen" by simp
    with "1.prems" eq show ?thesis
      by (intro exI[of _ i]) simp
  next
    case True
    let ?part = "hd splitDirs ! i"
    show ?thesis
    proof (cases "list_all (\<lambda>sp. sp ! i = ?part) splitDirs")
      case False
      with True have eq: "commonLoop splitDirs minLen i commonParts = commonParts"
        by (subst commonLoop.simps) simp
      with False True "1.prems" show ?thesis
        by (intro exI[of _ i]) simp
    next
      case all: True
      have step: "\<forall>sp\<in>set splitDirs. take (i + 1) sp = commonParts @ [?part]"
      proof
        fix sp assume sp: "sp \<in> set splitDirs"
        with "1.prems"(1) True have "i < length sp" by fastforce
        then have "take (i + 1) sp = take i sp @ [sp ! i]" by (simp add: take_Suc_conv_app_nth)
        with sp all "1.prems"(3) show "take (i + 1) sp = commonParts @ [?part]"
          by (simp add: list_all_iff)
      qed
      from True have le: "i + 1 \<le> minLen" by simp
      from "1.IH"[OF True refl all "1.prems"(1) le step]
      obtain k where k: "i + 1 \<le> k" "k \<le> minLen"
        "\<forall>sp\<in>set splitDirs. take k sp = commonLoop splitDirs minLen (i + 1) (commonParts @ [?part])"
        "k < minLen \<longrightarrow> \<not> list_all (\<lambda>sp. sp ! k = hd splitDirs ! k) splitDirs"
        by blast
      have "commonLoop splitDirs minLen i commonParts
              = commonLoop splitDirs minLen (i + 1) (commonParts @ [?part])"
        using True all by (subst commonLoop.simps) simp
      with k show ?thesis by (intro exI[of _ k]) simp
    qed
  qed
qed

lemma commonLoop_longest:
  assumes ne: "splitDirs \<noteq> []"
  defines "cp \<equiv> commonLoop splitDirs (Min (set (map length splitDirs))) 0 []"
  shows "(\<forall>sp\<in>set splitDirs. prefix cp sp) \<and>
         (\<forall>q. (\<forall>sp\<in>set splitDirs. prefix q sp) \<longrightarrow> prefix q cp)"
proof -
  let ?L = "set (map length splitDirs)"
  let ?m = "Min ?L"
  have fin: "finite ?L" "?L \<noteq> {}" using ne by auto
  have ml: "\<forall>sp\<in>set splitDirs. ?m \<le> length sp" using fin by (auto intro: Min_le)
  obtain sm where sm: "sm \<in> set splitDirs" "length sm = ?m"
    using Min_in[OF fin] by auto
  from commonLoop_result[OF ml, of 0 "[]"]
  obtain k where k: "k \<le> ?m" "\<forall>sp\<in>set splitDirs. take k sp = cp"
    "k < ?m \<longrightarrow> \<not> list_all (\<lambda>sp. sp ! k = hd splitDirs ! k) splitDirs"
    unfolding cp_def by auto
  have hdin: "hd splitDirs \<in> set splitDirs" using ne by simp
  have p1: "\<forall>sp\<in>set splitDirs. prefix cp sp"
    using k(2) by (metis take_is_prefix)
  have p2: "prefix q cp" if q: "\<forall>sp\<in>set splitDirs. prefix q sp" for q
  proof (cases "length q \<le> k")
    case True
    have "prefix q (hd splitDirs)" using q hdin by blast
    then have "q = take (length q) (hd splitDirs)" by (auto simp: prefix_def)
    also have "\<dots> = take (length q) (take k (hd splitDirs))" using True by (simp add: min_def)
    also have "\<dots> = take (length q) cp" using k(2) hdin by simp
    finally show ?thesis by (metis take_is_prefix)
  next
    case False
    then have kq: "k < length q" by simp
    have "length q \<le> length sm" using q sm(1) by (auto dest: prefix_length_le)
    with kq sm(2) have "k < ?m" by simp
    with k(3) obtain sp where sp: "sp \<in> set splitDirs" "sp ! k \<noteq> hd splitDirs ! k"
      by (auto simp: list_all_iff)
    have "prefix q sp" "prefix q (hd splitDirs)" using q sp(1) hdin by blast+
    then have "sp ! k = q ! k" "hd splitDirs ! k = q ! k"
      using kq by (auto simp: prefix_def nth_append)
    with sp(2) show ?thesis by simp
  qed
  from p1 p2 show ?thesis by blast
qed

lemma findCommonParentDir_longest:
  assumes "ps \<noteq> []"
  shows "\<exists>cp. findCommonParentDir wd ps = Inr (Some (join_sep cp)) \<and> cp \<noteq> [] \<and>
           (\<forall>p\<in>set ps. prefix cp (split_sep (dir_path (dir_segments wd p)))) \<and>
           (\<forall>q. (\<forall>p\<in>set ps. prefix q (split_sep (dir_path (dir_segments wd p)))) \<longrightarrow> prefix q cp)"
proof -
  let ?sd = "map split_sep (map (\<lambda>p. dirname (resolve wd p)) ps)"
  let ?cp = "commonLoop ?sd (Min (set (map length ?sd))) 0 []"
  have ne: "?sd \<noteq> []" using assms by simp
  note L = commonLoop_longest[OF ne]
  have a: "\<forall>p\<in>set ps. prefix ?cp (split_sep (dir_path (dir_segments wd p)))"
    using L by (simp add: dirname_resolve)
  have b: "prefix q ?cp" if "\<forall>p\<in>set ps. prefix q (split_sep (dir_path (dir_segments wd p)))" for q
    using L that by (simp add: dirname_resolve)
  have "\<forall>p\<in>set ps. prefix [[]] (split_sep (dir_path (dir_segments wd p)))"
    by (simp add: split_dir_path proper_dir_segments)
  then have "prefix [[]] ?cp" by (rule b)
  then have c: "?cp \<noteq> []" by auto
  have "findCommonParentDir wd ps = Inr (Some (join_sep ?cp))"
    unfolding findCommonParentDir_def Let_def using assms c by (simp only: if_False)
  with a b c show ?thesis by blast
qed

lemma common_dir_non_root:
  assumes ne: "ps \<noteq> []" and dsne: "ds \<noteq> []"
    and com: "\<forall>p\<in>set ps. prefix ds (dir_segments wd p)"
    and deep: "\<forall>ds'. (\<forall>p\<in>set ps. prefix ds' (dir_segments wd p)) \<longrightarrow> length ds' \<le> length ds"
  shows "findCommonParentDir wd ps = Inr (Some (dir_path ds))"
proof -
  from findCommonParentDir_longest[OF ne, of wd]
  obtain cp where cp: "findCommonParentDir wd ps = Inr (Some (join_sep cp))" "cp \<noteq> []"
    "\<forall>p\<in>set ps. prefix cp (split_sep (dir_path (dir_segments wd p)))"
    "\<And>q. (\<forall>p\<in>set ps. prefix q (split_sep (dir_path (dir_segments wd p)))) \<Longrightarrow> prefix q cp"
    by blast
  have sp: "split_sep (dir_path (dir_segments wd p)) = [] # dir_segments wd p" if "p \<in> set ps" for p
  proof -
    from com that dsne have "dir_segments wd p \<noteq> []" by auto
    then show ?thesis by (simp add: split_dir_path proper_dir_segments)
  qed
  have "\<forall>p\<in>set ps. prefix ([] # ds) (split_sep (dir_path (dir_segments wd p)))"
    using com sp by simp
  then have lo: "prefix ([] # ds) cp" by (rule cp(4))
  then obtain ds' where ds': "cp = [] # ds'" "prefix ds ds'" by (cases cp) auto
  have "\<forall>p\<in>set ps. prefix ds' (dir_segments wd p)" using cp(3) sp ds'(1) by auto
  with deep have "length ds' \<le> length ds" by blast
  with ds'(2) have "ds' = ds" by (auto simp: prefix_def)
  with ds'(1) dsne have "join_sep cp = dir_path ds" by (cases ds) (auto simp: dir_path_def)
  with cp(1) show ?thesis by simp
qed

lemma common_dir_all_root:
  assumes ne: "ps \<noteq> []" and root: "\<forall>p\<in>set ps. dir_segments wd p = []"
  shows "findCommonParentDir wd ps = Inr (Some (dir_path []))"
proof -
  from findCommonParentDir_longest[OF ne, of wd]
  obtain cp where cp: "findCommonParentDir wd ps = Inr (Some (join_sep cp))"
    "\<forall>p\<in>set ps. prefix cp (split_sep (dir_path (dir_segments wd p)))"
    "\<And>q. (\<forall>p\<in>set ps. prefix q (split_sep (dir_path (dir_segments wd p)))) \<Longrightarrow> prefix q cp"
    by blast
  have sp: "\<forall>p\<in>set ps. split_sep (dir_path (dir_segments wd p)) = [[], []]"
    using root by (simp add: dir_path_def)
  then have "prefix [[], []] cp" by (intro cp(3)) simp
  moreover from ne obtain p where "p \<in> set ps" by (cases ps) auto
  with cp(2) sp have "prefix cp [[], []]" by fastforce
  ultimately have "cp = [[], []]" by (simp add: prefix_order.antisym)
  with cp(1) show ?thesis by (simp add: dir_path_def)
qed

lemma common_dir_single: "findCommonParentDir wd [p] = Inr (Some (dirname (resolve wd p)))"
proof -
  from findCommonParentDir_longest[of "[p]" wd]
  obtain cp where cp: "findCommonParentDir wd [p] = Inr (Some (join_sep cp))"
    "prefix cp (split_sep (dir_path (dir_segments wd p)))"
    "\<And>q. prefix q (split_sep (dir_path (dir_segments wd p))) \<Longrightarrow> prefix q cp"
    by auto
  have "prefix (split_sep (dir_path (dir_segments wd p))) cp" by (rule cp(3)) simp
  with cp(2) have "cp = split_sep (dir_path (dir_segments wd p))" by (simp add: prefix_order.antisym)
  with cp(1) show ?thesis by (simp add: join_split dirname_resolve)
qed

lemma no_common_dir:
  assumes ne: "ps \<noteq> []" and deep: "\<exists>p\<in>set ps. dir_segments wd p \<noteq> []"
    and none: "\<not> (\<exists>s. \<forall>p\<in>set ps. prefix [s] (dir_segments wd p))"
  shows "findCommonParentDir wd ps = Inr (Some [])"
proof -
  from findCommonParentDir_longest[OF ne, of wd]
  obtain cp where cp: "findCommonParentDir wd ps = Inr (Some (join_sep cp))" "cp \<noteq> []"
    "\<forall>p\<in>set ps. prefix cp (split_sep (dir_path (dir_segments wd p)))"
    "\<And>q. (\<forall>p\<in>set ps. prefix q (split_sep (dir_path (dir_segments wd p)))) \<Longrightarrow> prefix q cp"
    by blast
  have sp: "split_sep (dir_path (dir_segments wd p))
              = (if dir_segments wd p = [] then [[], []] else [] # dir_segments wd p)" for p
    by (simp add: split_dir_path proper_dir_segments)
  from deep obtain p0 where p0: "p0 \<in> set ps" "dir_segments wd p0 \<noteq> []" by blast
  have hd0: "hd (dir_segments wd p0) \<noteq> []"
    using proper_dir_segments[of wd p0] p0(2)
    by (cases "dir_segments wd p0") (auto simp: proper_segments_def)
  from cp(3) p0 sp[of p0] have c0: "prefix cp ([] # dir_segments wd p0)" by auto
  have "cp = [[]]"
  proof (rule ccontr)
    assume n: "cp \<noteq> [[]]"
    with c0 cp(2) obtain s rest where cps: "cp = [] # s # rest"
      by (cases cp; cases "tl cp") auto
    with c0 have s: "prefix [s] (dir_segments wd p0)" by (cases "dir_segments wd p0") auto
    with hd0 have sne: "s \<noteq> []" by (cases "dir_segments wd p0") auto
    have "prefix [s] (dir_segments wd p)" if "p \<in> set ps" for p
    proof -
      from cp(3) that have "prefix cp (split_sep (dir_path (dir_segments wd p)))" by blast
      then have "prefix cp (if dir_segments wd p = [] then [[], []] else [] # dir_segments wd p)"
        by (simp only: sp[of p])
      with cps sne show ?thesis
        by (cases "dir_segments wd p") auto
    qed
    with none show False by blast
  qed
  with cp(1) show ?thesis by simp
qed

section \<open>\<open>applyPathMappings\<close>: the first matching rule\<close>

text \<open>
  Only the first rule whose \<open>from\<close> is a prefix of the path is applied, to
  the leading occurrence; the replacement is the expansion of \<open>to\<close>, which
  is \<open>to\<close> itself when it has no \<open>$\<close>.
\<close>

lemma getSubstitution_literal:
  "CHR ''$'' \<notin> set repl \<Longrightarrow> getSubstitution matched front after repl = repl"
  by (induction matched front after repl rule: getSubstitution.induct) auto

lemma replace_leading:
  "startsWith s pat \<Longrightarrow>
     replace s pat repl
       = getSubstitution pat [] (drop (length pat) s) repl @ drop (length pat) s"
  by (simp add: replace_def)

lemma applyMappingsLoop_first_match:
  "applyMappingsLoop p ms =
     (case find (\<lambda>m. startsWith p (from m)) ms of
        None \<Rightarrow> p
      | Some m \<Rightarrow>
          getSubstitution (from m) [] (drop (length (from m)) p) (to m) @ drop (length (from m)) p)"
  by (induction ms) (auto simp: replace_leading)

lemma applyPathMappings_literal:
  "find (\<lambda>m. startsWith p (from m)) ms = Some m \<Longrightarrow> CHR ''$'' \<notin> set (to m) \<Longrightarrow>
     applyPathMappings p (Some ms) = to m @ drop (length (from m)) p"
  by (simp add: applyPathMappings_def applyMappingsLoop_first_match getSubstitution_literal)

lemma applyPathMappings_no_match:
  "find (\<lambda>m. startsWith p (from m)) ms = None \<Longrightarrow> applyPathMappings p (Some ms) = p"
  by (simp add: applyPathMappings_def applyMappingsLoop_first_match)

section \<open>The extension of a file name\<close>

lemma dropWhile_dot_free: "CHR ''.'' \<notin> set ys \<Longrightarrow> dropWhile (\<lambda>x. x \<noteq> CHR ''.'') ys = []"
  by (induction ys) auto

lemma dropWhile_dot_snoc:
  "CHR ''.'' \<notin> set ys \<Longrightarrow>
     dropWhile (\<lambda>x. x \<noteq> CHR ''.'') (ys @ [c]) = (if c = CHR ''.'' then [c] else [])"
  by (induction ys) auto

lemma component_snoc_shape:
  "\<exists>zs. set zs \<subseteq> set ys \<and>
     (takeWhile Q (dropWhile P (ys @ [c])) = zs \<or> takeWhile Q (dropWhile P (ys @ [c])) = zs @ [c])"
proof (cases "\<forall>y\<in>set ys. P y")
  case True
  then have "dropWhile P (ys @ [c]) = dropWhile P [c]" by simp
  then show ?thesis by (intro exI[of _ "[]"]) auto
next
  case False
  then have d: "dropWhile P (ys @ [c]) = dropWhile P ys @ [c]" by (metis dropWhile_append1)
  let ?ys = "dropWhile P ys"
  have sub: "set ?ys \<subseteq> set ys" by (auto dest: set_dropWhileD)
  show ?thesis
  proof (cases "\<forall>y\<in>set ?ys. Q y")
    case True
    then have "takeWhile Q (?ys @ [c]) = ?ys @ takeWhile Q [c]" by simp
    with d sub show ?thesis by (intro exI[of _ ?ys]) auto
  next
    case False
    then have "takeWhile Q (?ys @ [c]) = takeWhile Q ?ys" by (metis takeWhile_append1)
    moreover have "set (takeWhile Q ?ys) \<subseteq> set ?ys" by (auto dest: set_takeWhileD)
    ultimately show ?thesis using d sub by (intro exI[of _ "takeWhile Q ?ys"]) auto
  qed
qed

lemma ext_case_trivial:
  "ds = [] \<or> ds = [c] \<Longrightarrow>
     (case ds of [] \<Rightarrow> [] | _ # front \<Rightarrow> (if front = [] \<or> X then [] else Y)) = []"
  by auto

lemma extname_no_dot_in_tail:
  assumes "CHR ''.'' \<notin> set (tl name)"
  shows "extname name = []"
proof (cases name)
  case Nil
  then show ?thesis by (simp add: extname_def last_component_def)
next
  case (Cons c t)
  with assms have nd: "CHR ''.'' \<notin> set (rev t)" by simp
  let ?rc = "takeWhile (\<lambda>x. x \<noteq> CHR ''/'') (dropWhile (\<lambda>x. x = CHR ''/'') (rev t @ [c]))"
  obtain zs where zs: "set zs \<subseteq> set (rev t)" "?rc = zs \<or> ?rc = zs @ [c]"
    using component_snoc_shape[of "rev t" "\<lambda>x. x \<noteq> CHR ''/''" "\<lambda>x. x = CHR ''/''" c] by auto
  have nz: "CHR ''.'' \<notin> set zs" using zs(1) nd by blast
  have "dropWhile (\<lambda>x. x \<noteq> CHR ''.'') ?rc = [] \<or> dropWhile (\<lambda>x. x \<noteq> CHR ''.'') ?rc = [c]"
  proof -
    from zs(2) show ?thesis
    proof
      assume a: "?rc = zs"
      show ?thesis unfolding a using dropWhile_dot_free[OF nz] by simp
    next
      assume a: "?rc = zs @ [c]"
      show ?thesis unfolding a using dropWhile_dot_snoc[OF nz, of c] by (simp split: if_splits)
    qed
  qed
  note key = this
  have rn: "rev name = rev t @ [c]" using Cons by simp
  show ?thesis
    unfolding extname_def last_component_def Let_def rev_rev_ident rn
    by (rule ext_case_trivial[OF key])
qed

lemma isExtraFile_extname_nonempty: "isExtraFile name \<Longrightarrow> extname name \<noteq> []"
  by (auto simp: isExtraFile_def toLowerCase_def EXTRA_ALLOWLIST_def)

lemma not_extra_no_dot_in_tail: "CHR ''.'' \<notin> set (tl name) \<Longrightarrow> \<not> isExtraFile name"
  using extname_no_dot_in_tail isExtraFile_extname_nonempty by blast






section \<open>\<open>removeExistingExtras\<close> as a filter\<close>

lemma lstat_distinct:
  "distinct (map fst d) \<Longrightarrow> (lstat d n = Some st) = ((n, st) \<in> set d)"
  by (simp add: lstat_def)

lemma lstat_None: "(lstat d n = None) = (n \<notin> fst ` set d)"
  by (simp add: lstat_def map_of_eq_None_iff)

lemma remove_step:
  assumes "distinct (map fst d)"
  shows "(case lstat d file of
            None \<Rightarrow> d
          | Some st \<Rightarrow>
              (if isFile st \<and> isExtraFile file
               then (case unlink cu file d of None \<Rightarrow> d | Some d' \<Rightarrow> d')
               else d))
         = filter (\<lambda>x. \<not> (fst x = file \<and> stale cu x)) d"
proof (cases "lstat d file")
  case None
  then have "\<forall>x\<in>set d. fst x \<noteq> file" by (auto simp: lstat_None)
  then have "filter (\<lambda>x. \<not> (fst x = file \<and> stale cu x)) d = d" by (auto intro: filter_True)
  with None show ?thesis by simp
next
  case (Some st)
  then have mem: "(file, st) \<in> set d" using assms by (simp add: lstat_distinct)
  have uniq: "\<And>x. x \<in> set d \<Longrightarrow> fst x = file \<Longrightarrow> x = (file, st)"
    using assms mem by (metis eq_key_imp_eq_value prod.collapse)
  show ?thesis
  proof (cases "isFile st \<and> isExtraFile file")
    case True
    then have nd: "\<not> isDirectory st" by (cases st) auto
    show ?thesis
    proof (cases "cu file st")
      case ok: True
      have "filter (\<lambda>(n, _). n \<noteq> file) d = filter (\<lambda>x. \<not> (fst x = file \<and> stale cu x)) d"
        using uniq True ok by (intro filter_cong) (auto simp: stale_def)
      with Some True nd ok show ?thesis by (simp add: unlink_def)
    next
      case refused: False
      then have "\<forall>x\<in>set d. \<not> (fst x = file \<and> stale cu x)" using uniq by (auto simp: stale_def)
      then have "filter (\<lambda>x. \<not> (fst x = file \<and> stale cu x)) d = d" by (auto intro: filter_True)
      with Some True refused show ?thesis by (simp add: unlink_def)
    qed
  next
    case False
    then have "\<forall>x\<in>set d. \<not> (fst x = file \<and> stale cu x)" using uniq by (auto simp: stale_def)
    then have "filter (\<lambda>x. \<not> (fst x = file \<and> stale cu x)) d = d" by (auto intro: filter_True)
    with Some False show ?thesis by auto
  qed
qed

lemma removeLoop_filter:
  "distinct (map fst d) \<Longrightarrow>
     removeLoop cu fs d = filter (\<lambda>x. \<not> (fst x \<in> set fs \<and> stale cu x)) d"
proof (induction fs arbitrary: d)
  case Nil
  then show ?case by simp
next
  case (Cons f fs)
  let ?d1 = "filter (\<lambda>x. \<not> (fst x = f \<and> stale cu x)) d"
  have "distinct (map fst ?d1)" using Cons.prems by (simp add: distinct_map_filter)
  then have "removeLoop cu fs ?d1 = filter (\<lambda>x. \<not> (fst x \<in> set fs \<and> stale cu x)) ?d1"
    by (rule Cons.IH)
  moreover have "removeLoop cu (f # fs) d = removeLoop cu fs ?d1"
    using remove_step[OF Cons.prems, of f] by simp
  ultimately show ?case by (auto intro: filter_cong)
qed

lemma removeExistingExtras_filter:
  "distinct (map fst album) \<Longrightarrow> removeExistingExtras cu album = filter (\<lambda>x. \<not> stale cu x) album"
  unfolding removeExistingExtras_def readdir_def
  by (simp add: removeLoop_filter) (auto intro: filter_cong)

lemma removeLoop_keeps:
  "\<not> isExtraFile n \<Longrightarrow> (n, e) \<in> set d \<Longrightarrow> (n, e) \<in> set (removeLoop cu fs d)"
proof (induction fs arbitrary: d)
  case Nil
  then show ?case by simp
next
  case (Cons f fs)
  have "(n, e) \<in> set (case lstat d f of
            None \<Rightarrow> d
          | Some st \<Rightarrow>
              (if isFile st \<and> isExtraFile f
               then (case unlink cu f d of None \<Rightarrow> d | Some d' \<Rightarrow> d')
               else d))"
    using Cons.prems by (auto simp: unlink_def split: option.splits if_splits)
  then show ?case using Cons.IH[OF Cons.prems(1)] by simp
qed

section \<open>The walk of \<open>linkExtrasRecursive\<close>\<close>


















section \<open>The claims\<close>

text \<open>
  C1, as stated, fails: the handler calls \<open>removeExistingExtras\<close> before it
  asks qBittorrent for the torrent. For a download identifier qBittorrent
  does not know the run ends with \<open>TorrentNotFound\<close>, and \<open>old.log\<close> is gone
  from the album directory.
\<close>

theorem C1_counterexample:
  "(case processImport exampleWorld exampleConfig [''/music/Artist/Album/01.flac''] ''unknown'' exampleFiles of
     (e, files') \<Rightarrow> (e, exampleFiles ''/music/Artist/Album'', files' ''/music/Artist/Album''))
     = (Some TorrentNotFound,
        Some [(''01.flac'', File 10), (''old.log'', File 11)],
        Some [(''01.flac'', File 10)])"
  by code_simp

text \<open>
  C1, amended: the handler resolves the album directory, removes the stale
  extras from it, resolves the source directory (login, then the torrent's
  folder) and links the extras, in this order, and every error ends the run
  as failed. When the album directory is not resolved, or cannot be read,
  the file system is unchanged. When the source directory is not resolved,
  or cannot be read, the stale extras of the album directory have been
  removed and nothing is linked. Otherwise, for an album directory that is
  not the source directory and not inside it, the album directory is what the
  walk leaves of it, with the walk's error, if any.
\<close>

theorem C1_order_of_steps:
  "(findCommonParentDir (cwd w) ps = Inl e \<longrightarrow> processImport w cfg ps dlId files = (Some e, files))
   \<and> (findCommonParentDir (cwd w) ps = Inr r \<and> falsy r
        \<longrightarrow> processImport w cfg ps dlId files = (Some NoCommonRootTracks, files))
   \<and> (findCommonParentDir (cwd w) ps = Inr (Some albumPath) \<and> albumPath \<noteq> [] \<and>
       files albumPath = None
        \<longrightarrow> processImport w cfg ps dlId files = (Some ReaddirFailed, files))
   \<and> (findCommonParentDir (cwd w) ps = Inr (Some albumPath) \<and> albumPath \<noteq> [] \<and>
       files albumPath = Some album
        \<longrightarrow> (case resolveSource w cfg dlId of
               Inl e' \<Rightarrow>
                 processImport w cfg ps dlId files
                   = (Some e', files(albumPath \<mapsto> removeExistingExtras (canUnlink w) album))
             | Inr originalDir \<Rightarrow>
                 (case (files(albumPath \<mapsto> removeExistingExtras (canUnlink w) album)) originalDir of
                    None \<Rightarrow>
                      processImport w cfg ps dlId files
                        = (Some ReaddirFailed,
                           files(albumPath \<mapsto> removeExistingExtras (canUnlink w) album))
                  | Some source \<Rightarrow>
                      \<not> lies_in albumPath originalDir \<longrightarrow>
                      processImport w cfg ps dlId files
                        = (fst (linkExtrasRecursive (canLink w) (canUnlink w) source
                                  (removeExistingExtras (canUnlink w) album) []),
                           files(albumPath \<mapsto>
                             snd (linkExtrasRecursive (canLink w) (canUnlink w) source
                                    (removeExistingExtras (canUnlink w) album) []))))))"
  by (auto simp: processImport_def resolveSource_def falsy_def Let_def
      split: sum.splits option.splits prod.splits)

text \<open>
  Witness of C1 (amended): a download identifier unknown to qBittorrent, an
  album directory that does not exist, and a run that links \<open>cover.jpg\<close>.
\<close>

theorem C1_order_of_steps_witness:
  "processImport exampleWorld exampleConfig [''/music/Artist/Album/01.flac''] ''unknown'' exampleFiles
     = (Some TorrentNotFound,
        exampleFiles(''/music/Artist/Album'' \<mapsto>
          removeExistingExtras (\<lambda>_ _. True) [(''01.flac'', File 10), (''old.log'', File 11)]))
   \<and> removeExistingExtras (\<lambda>_ _. True) [(''01.flac'', File 10), (''old.log'', File 11)]
       = [(''01.flac'', File 10)]
   \<and> processImport exampleWorld exampleConfig [''/music/Other/01.flac''] ''abc'' exampleFiles
       = (Some ReaddirFailed, exampleFiles)
   \<and> processImport exampleWorld exampleConfig [''/music/Artist/Album/01.flac''] ''abc'' exampleFiles
       = (None,
          exampleFiles(''/music/Artist/Album'' \<mapsto> [(''01.flac'', File 10), (''cover.jpg'', File 2)]))"
proof -
  let ?album = "[(''01.flac'', File 10), (''old.log'', File 11)]"
  have c: "canUnlink exampleWorld = (\<lambda>_ _. True)" "canLink exampleWorld = (\<lambda>_. True)"
    by (simp_all add: exampleWorld_def)
  have h1: "findCommonParentDir (cwd exampleWorld) [''/music/Artist/Album/01.flac'']
              = Inr (Some ''/music/Artist/Album'')"
    by code_simp
  have h2: "''/music/Artist/Album'' \<noteq> []" by simp
  have h3: "exampleFiles ''/music/Artist/Album'' = Some ?album"
    by code_simp
  have h4: "resolveSource exampleWorld exampleConfig ''unknown'' = Inl TorrentNotFound"
    by code_simp
  have h5: "removeExistingExtras (\<lambda>_ _. True) ?album = [(''01.flac'', File 10)]"
    by code_simp
  have g1: "findCommonParentDir (cwd exampleWorld) [''/music/Other/01.flac'']
              = Inr (Some ''/music/Other'')"
    by code_simp
  have g2: "''/music/Other'' \<noteq> []" by simp
  have g3: "exampleFiles ''/music/Other'' = None" by code_simp
  have k4: "resolveSource exampleWorld exampleConfig ''abc'' = Inr ''/data/Album''"
    by code_simp
  have k5: "(exampleFiles(''/music/Artist/Album'' \<mapsto> [(''01.flac'', File 10)])) ''/data/Album''
              = Some [(''01.flac'', File 1), (''cover.jpg'', File 2)]"
    by code_simp
  have k6: "\<not> lies_in ''/music/Artist/Album'' ''/data/Album''" by code_simp
  have k7: "linkExtrasRecursive (\<lambda>_. True) (\<lambda>_ _. True)
              [(''01.flac'', File 1), (''cover.jpg'', File 2)] [(''01.flac'', File 10)] []
            = (None, [(''01.flac'', File 10), (''cover.jpg'', File 2)])"
    by code_simp
  note t = C1_order_of_steps[where w=exampleWorld and cfg=exampleConfig and files=exampleFiles]
  from t[where ps="[''/music/Artist/Album/01.flac'']" and dlId="''unknown''"
        and albumPath="''/music/Artist/Album''" and album="?album"] h1 h2 h3 h4
  have a: "processImport exampleWorld exampleConfig [''/music/Artist/Album/01.flac''] ''unknown''
             exampleFiles
           = (Some TorrentNotFound,
              exampleFiles(''/music/Artist/Album'' \<mapsto> removeExistingExtras (\<lambda>_ _. True) ?album))"
    by (simp add: c)
  from t[where ps="[''/music/Other/01.flac'']" and dlId="''abc''"
        and albumPath="''/music/Other''"] g1 g2 g3
  have b: "processImport exampleWorld exampleConfig [''/music/Other/01.flac''] ''abc'' exampleFiles
           = (Some ReaddirFailed, exampleFiles)"
    by simp
  from t[where ps="[''/music/Artist/Album/01.flac'']" and dlId="''abc''"
        and albumPath="''/music/Artist/Album''" and album="?album"] h1 h2 h3 k4 k5 k6 k7
  have d: "processImport exampleWorld exampleConfig [''/music/Artist/Album/01.flac''] ''abc''
             exampleFiles
           = (None,
              exampleFiles(''/music/Artist/Album'' \<mapsto> [(''01.flac'', File 10), (''cover.jpg'', File 2)]))"
    by (simp add: c h5)
  from a b d h5 show ?thesis by simp
qed




text \<open>
  C3, as stated, fails: a notification with an empty track list and a
  download identifier is answered with status 200, not with a client error.
\<close>

theorem C3_counterexample:
  "fst (webhook exampleWorld exampleConfig
          \<lparr>eventType = None, trackFiles = Some [], downloadId = Some ''abc''\<rparr> exampleFiles) = 200"
  by code_simp

text \<open>
  C3, amended: the handler answers 400 exactly when the event is not a
  \<open>Test\<close> event and the track list is missing or the download identifier is
  missing or empty; every other notification is answered 200, whatever
  happens while it is processed.
\<close>

theorem C3_status:
  "fst (webhook w cfg b files) =
     (if eventType b \<noteq> Some ''Test'' \<and>
         (trackFiles b = None \<or> downloadId b = None \<or> downloadId b = Some [])
      then 400 else 200)"
  by (simp add: webhook_def split: option.splits)

text \<open>Witness of C3 (amended): a notification without track list, and one whose torrent is unknown.\<close>

theorem C3_status_witness:
  "fst (webhook exampleWorld exampleConfig
          \<lparr>eventType = None, trackFiles = None, downloadId = Some ''abc''\<rparr> exampleFiles) = 400
   \<and> fst (webhook exampleWorld exampleConfig
          \<lparr>eventType = None, trackFiles = Some [''/music/Artist/Album/01.flac''],
           downloadId = Some ''unknown''\<rparr> exampleFiles) = 200"
  using C3_status[of exampleWorld exampleConfig
          "\<lparr>eventType = None, trackFiles = None, downloadId = Some ''abc''\<rparr>" exampleFiles]
        C3_status[of exampleWorld exampleConfig
          "\<lparr>eventType = None, trackFiles = Some [''/music/Artist/Album/01.flac''],
            downloadId = Some ''unknown''\<rparr>" exampleFiles]
  by simp

text \<open>
  C4: for a non-empty list of paths whose directories all lie in the
  directory with segments \<open>ds\<close>, no deeper directory containing them all,
  \<open>findCommonParentDir\<close> returns the path of that directory, when it is not
  the root (and also when it is the root and every path lies directly in
  it); for a single path it returns the directory of the path. The remaining
  case, paths that share the root only, is the one of C5.
\<close>

theorem C4_deepest_common_directory:
  "(ps \<noteq> [] \<and> (\<forall>p\<in>set ps. prefix ds (dir_segments wd p)) \<and>
    (\<forall>ds'. (\<forall>p\<in>set ps. prefix ds' (dir_segments wd p)) \<longrightarrow> length ds' \<le> length ds) \<and>
    (ds \<noteq> [] \<or> (\<forall>p\<in>set ps. dir_segments wd p = []))
      \<longrightarrow> findCommonParentDir wd ps = Inr (Some (dir_path ds)))
   \<and> findCommonParentDir wd [p] = Inr (Some (dirname (resolve wd p)))"
proof (intro conjI impI)
  assume a: "ps \<noteq> [] \<and> (\<forall>p\<in>set ps. prefix ds (dir_segments wd p)) \<and>
    (\<forall>ds'. (\<forall>p\<in>set ps. prefix ds' (dir_segments wd p)) \<longrightarrow> length ds' \<le> length ds) \<and>
    (ds \<noteq> [] \<or> (\<forall>p\<in>set ps. dir_segments wd p = []))"
  show "findCommonParentDir wd ps = Inr (Some (dir_path ds))"
  proof (cases "ds = []")
    case False
    with a show ?thesis by (intro common_dir_non_root) blast+
  next
    case True
    with a have "\<forall>p\<in>set ps. dir_segments wd p = []" by blast
    with a True show ?thesis by (simp add: common_dir_all_root)
  qed
next
  show "findCommonParentDir wd [p] = Inr (Some (dirname (resolve wd p)))"
    by (rule common_dir_single)
qed

text \<open>Witness of C4: two tracks of one album, and one track.\<close>

theorem C4_deepest_common_directory_witness:
  "findCommonParentDir ''/'' [''/music/Artist/Album/01.flac'', ''/music/Artist/Album/02.flac'']
     = Inr (Some ''/music/Artist/Album'')
   \<and> findCommonParentDir ''/'' [''/music/Artist/Album/01.flac''] = Inr (Some ''/music/Artist/Album'')"
proof -
  let ?ps = "[''/music/Artist/Album/01.flac'', ''/music/Artist/Album/02.flac'']"
  let ?ds = "[''music'', ''Artist'', ''Album'']"
  have d: "dir_segments ''/'' ''/music/Artist/Album/01.flac'' = ?ds"
    "dir_segments ''/'' ''/music/Artist/Album/02.flac'' = ?ds"
    by code_simp+
  have h1: "?ps \<noteq> []" by simp
  have h2: "\<forall>p\<in>set ?ps. prefix ?ds (dir_segments ''/'' p)" using d by simp
  have h3: "\<forall>ds'. (\<forall>p\<in>set ?ps. prefix ds' (dir_segments ''/'' p)) \<longrightarrow> length ds' \<le> length ?ds"
    using d by (auto dest: prefix_length_le)
  have h4: "?ds \<noteq> [] \<or> (\<forall>p\<in>set ?ps. dir_segments ''/'' p = [])" by simp
  have r: "dirname (resolve ''/'' ''/music/Artist/Album/01.flac'') = ''/music/Artist/Album''"
    by code_simp
  have p: "dir_path ?ds = ''/music/Artist/Album''" by code_simp
  from C4_deepest_common_directory[of ?ps ?ds "''/''" "''/music/Artist/Album/01.flac''"]
    h1 h2 h3 h4
  have "findCommonParentDir ''/'' ?ps = Inr (Some (dir_path ?ds))"
    "findCommonParentDir ''/'' [''/music/Artist/Album/01.flac'']
       = Inr (Some (dirname (resolve ''/'' ''/music/Artist/Album/01.flac'')))"
    by blast+
  then show ?thesis by (simp only: r p)
qed

text \<open>
  C5, as stated, fails for tracks that lie directly in the root: \<open>/x.flac\<close>
  and \<open>/y.flac\<close> share no segment, the result is \<open>/\<close>, and the run removes
  \<open>notes.txt\<close> from the root directory and links \<open>cover.jpg\<close> into it.
\<close>

theorem C5_counterexample:
  "findCommonParentDir ''/'' [''/x.flac'', ''/y.flac''] = Inr (Some ''/'')
   \<and> (case processImport exampleWorld exampleConfig [''/x.flac'', ''/y.flac''] ''abc'' exampleFiles of
        (e, files') \<Rightarrow> (e, exampleFiles ''/'', files' ''/''))
       = (None,
          Some [(''x.flac'', File 20), (''notes.txt'', File 21)],
          Some [(''x.flac'', File 20), (''cover.jpg'', File 2)])"
  by code_simp

text \<open>
  C5, amended: \<open>findCommonParentDir\<close> throws exactly when the list of paths
  is empty. When the directories of the tracks have no first segment in
  common and one of them is not the root, it returns the empty string, which
  the handler takes for no result: the run fails and the file system is
  unchanged.
\<close>

theorem C5_no_common_ancestor:
  "((findCommonParentDir wd ps = Inl e) = (ps = [] \<and> e = NoPathsProvided))
   \<and> (ps \<noteq> [] \<and> (\<exists>p\<in>set ps. dir_segments (cwd w) p \<noteq> []) \<and>
       \<not> (\<exists>s. \<forall>p\<in>set ps. prefix [s] (dir_segments (cwd w) p))
      \<longrightarrow> findCommonParentDir (cwd w) ps = Inr (Some [])
          \<and> processImport w cfg ps dlId files = (Some NoCommonRootTracks, files))"
proof (intro conjI impI)
  show "(findCommonParentDir wd ps = Inl e) = (ps = [] \<and> e = NoPathsProvided)"
  proof (cases "ps = []")
    case True
    then show ?thesis by (auto simp: findCommonParentDir_def)
  next
    case False
    from findCommonParentDir_longest[OF False, of wd] False show ?thesis by auto
  qed
next
  assume a: "ps \<noteq> [] \<and> (\<exists>p\<in>set ps. dir_segments (cwd w) p \<noteq> []) \<and>
       \<not> (\<exists>s. \<forall>p\<in>set ps. prefix [s] (dir_segments (cwd w) p))"
  then show r: "findCommonParentDir (cwd w) ps = Inr (Some [])"
    by (intro no_common_dir) blast+
  then show "processImport w cfg ps dlId files = (Some NoCommonRootTracks, files)"
    by (simp add: processImport_def falsy_def)
qed

text \<open>Witness of C5 (amended): tracks in \<open>/a\<close> and in \<open>/b\<close>, and the empty list.\<close>

theorem C5_no_common_ancestor_witness:
  "findCommonParentDir ''/'' [''/a/x.flac'', ''/b/y.flac''] = Inr (Some [])
   \<and> processImport exampleWorld exampleConfig [''/a/x.flac'', ''/b/y.flac''] ''abc'' exampleFiles
       = (Some NoCommonRootTracks, exampleFiles)
   \<and> findCommonParentDir ''/'' [] = Inl NoPathsProvided"
proof -
  let ?ps = "[''/a/x.flac'', ''/b/y.flac'']"
  have c: "cwd exampleWorld = ''/''" by (simp add: exampleWorld_def)
  have d: "dir_segments ''/'' ''/a/x.flac'' = [''a'']" "dir_segments ''/'' ''/b/y.flac'' = [''b'']"
    by code_simp+
  have h1: "?ps \<noteq> []" by simp
  have h2: "\<exists>p\<in>set ?ps. dir_segments (cwd exampleWorld) p \<noteq> []" using c d by simp
  have h3: "\<not> (\<exists>s. \<forall>p\<in>set ?ps. prefix [s] (dir_segments (cwd exampleWorld) p))"
    using c d by simp
  note t = C5_no_common_ancestor[of "''/''" ?ps NoPathsProvided exampleWorld exampleConfig
      "''abc''" exampleFiles]
    C5_no_common_ancestor[of "''/''" "[]" NoPathsProvided exampleWorld exampleConfig
      "''abc''" exampleFiles]
  from t h1 h2 h3 c show ?thesis by simp
qed

text \<open>
  C6: the code replaces the prefix with \<open>String.prototype.replace\<close>, which
  expands \<open>$\<close> patterns in the replacement. With the rule
  \<open>/downloads\<close> \<open>\<rightarrow>\<close> \<open>/data/$$x\<close> the path \<open>/downloads/a\<close> becomes
  \<open>/data/$x/a\<close>, not \<open>/data/$$x/a\<close>.
\<close>

theorem C6_failing_input:
  "applyPathMappings ''/downloads/a'' (Some [\<lparr>from = ''/downloads'', to = ''/data/$$x''\<rparr>])
     = ''/data/$x/a''"
  by code_simp




text \<open>
  C8, as stated, fails when a deletion fails: the failure is swallowed and
  the entry stays. With \<open>b.log\<close> not removable, \<open>a.log\<close> and \<open>c.log\<close> are
  deleted and \<open>b.log\<close>, a regular file with an allowlisted extension, is not.
\<close>

theorem C8_counterexample:
  "removeExistingExtras (\<lambda>n st. n \<noteq> ''b.log'')
     [(''a.log'', File 1), (''b.log'', File 2), (''c.log'', File 3)]
   = [(''b.log'', File 2)]"
  by code_simp

text \<open>
  C8, amended: \<open>removeExistingExtras\<close> deletes exactly the entries of the
  album directory that are regular files with an allowlisted extension and
  whose deletion does not fail; every other entry stays as it is, a directory
  with all it contains.
\<close>

theorem C8_removes_exactly_stale:
  "distinct (map fst album) \<Longrightarrow>
     removeExistingExtras cu album
       = filter (\<lambda>(name, st). \<not> (isFile st \<and> isExtraFile name \<and> cu name st)) album"
  by (simp add: removeExistingExtras_filter stale_def case_prod_unfold)

text \<open>
  Witness of C8 (amended): a directory and a symbolic link with allowlisted
  names stay, and so does an extra that cannot be removed.
\<close>

theorem C8_removes_exactly_stale_witness:
  "removeExistingExtras (\<lambda>n st. n \<noteq> ''locked.txt'')
     [(''01.flac'', File 1), (''cover.jpg'', File 2), (''scans.jpg'', Dir [(''p1.jpg'', File 3)]),
      (''link.log'', Other), (''locked.txt'', File 4)]
     = [(''01.flac'', File 1), (''scans.jpg'', Dir [(''p1.jpg'', File 3)]), (''link.log'', Other),
        (''locked.txt'', File 4)]"
proof -
  have d: "distinct (map fst [(''01.flac'', File 1), (''cover.jpg'', File 2),
       (''scans.jpg'', Dir [(''p1.jpg'', File 3)]), (''link.log'', Other), (''locked.txt'', File 4)])"
    by simp
  have e: "isExtraFile ''cover.jpg''" "\<not> isExtraFile ''01.flac''" by code_simp+
  show ?thesis using e C8_removes_exactly_stale[OF d, of "\<lambda>n st. n \<noteq> ''locked.txt''"] by simp
qed

text \<open>
  C9: the source tree \<open>cover.jpg\<close>, \<open>disc1/log.log\<close>, \<open>disc1/readme.nfo\<close>
  synced into an empty directory gives exactly \<open>cover.jpg\<close> and
  \<open>disc1-log.log\<close>, each a link to its source file, in either order of
  enumeration and whatever entries the system would refuse to remove.
\<close>

theorem C9_scenario:
  "linkExtrasRecursive (\<lambda>_. True) cu
     [(''cover.jpg'', File 1), (''disc1'', Dir [(''log.log'', File 2), (''readme.nfo'', File 3)])]
     (removeExistingExtras cu []) []
   = (None, [(''cover.jpg'', File 1), (''disc1-log.log'', File 2)])
   \<and> linkExtrasRecursive (\<lambda>_. True) cu
     [(''disc1'', Dir [(''readme.nfo'', File 3), (''log.log'', File 2)]), (''cover.jpg'', File 1)]
     (removeExistingExtras cu []) []
   = (None, [(''disc1-log.log'', File 2), (''cover.jpg'', File 1)])"
proof -
  have e: "isExtraFile ''cover.jpg''" "isExtraFile ''log.log''" "\<not> isExtraFile ''readme.nfo''"
    by code_simp+
  show ?thesis
    by (simp add: e removeExistingExtras_def readdir_def unlink_def lstat_def link_def destName_def)
qed

text \<open>
  C10: a file name whose only dot, if any, is its first character is not an
  extra; \<open>removeExistingExtras\<close> keeps an entry of that name and
  \<open>linkExtrasRecursive\<close> passes over a file of that name.
\<close>

theorem C10_no_extension:
  "CHR ''.'' \<notin> set (tl name) \<Longrightarrow>
     \<not> isExtraFile name
     \<and> ((name, st) \<in> set album \<longrightarrow> (name, st) \<in> set (removeExistingExtras cu album))
     \<and> linkExtrasRecursive lk cu ((name, File ino) # rest) album base
         = linkExtrasRecursive lk cu rest album base"
  using not_extra_no_dot_in_tail[of name]
  by (simp add: removeExistingExtras_def removeLoop_keeps)

text \<open>Witness of C10: the file name \<open>.log\<close>.\<close>

theorem C10_no_extension_witness:
  "CHR ''.'' \<notin> set (tl ''.log'')
   \<and> \<not> isExtraFile ''.log''
   \<and> (''.log'', File 1) \<in> set (removeExistingExtras (\<lambda>_ _. True) [(''.log'', File 1), (''a.log'', File 2)])
   \<and> linkExtrasRecursive (\<lambda>_. True) (\<lambda>_ _. True) ((''.log'', File 1) # [(''.cue'', File 2)]) [] []
        = (None, [])"
proof -
  have h: "CHR ''.'' \<notin> set (tl ''.log'')" by simp
  have r: "linkExtrasRecursive (\<lambda>_. True) (\<lambda>_ _. True) [(''.cue'', File 2)] [] [] = (None, [])" by code_simp
  show ?thesis
    using h r C10_no_extension[OF h, where st="File 1" and album="[(''.log'', File 1), (''a.log'', File 2)]"
        and lk="\<lambda>_. True" and cu="\<lambda>_ _. True" and ino=1 and rest="[(''.cue'', File 2)]" and base="[]"]
    by simp
qed

end
